theory Spec2Isabelle
  imports Complex_Main
begin

section \<open>The joint of bvhio: data model\<close>

text \<open>
  \<^verbatim>\<open>src/bvhio/lib/hierarchy/Joint.py\<close> defines the class \<^verbatim>\<open>Joint\<close>, a \<^verbatim>\<open>Transform\<close> of the
  package SpatialTransform with a rest pose and a list of keyframes. Vectors (\<^verbatim>\<open>glm.vec3\<close>),
  quaternions (\<^verbatim>\<open>glm.quat\<close>) and matrices (\<^verbatim>\<open>glm.mat4\<close>) belong to PyGLM: they are the type
  parameters \<open>'v\<close>, \<open>'q\<close> and \<open>'m\<close>, and their operations are the fields of the record
  \<open>glm\<close> below, taken as a parameter by every function that calls them.
\<close>

record ('v, 'q) Pose =
  Position :: 'v
  Rotation :: 'q
  Scale :: 'v

text \<open>
  Modelled from the spec: \<^verbatim>\<open>Pose.duplicate\<close> of SpatialTransform, a deep copy. On values the
  copy is the value itself; the store of section \<open>The rest pose as an object\<close> gives the copy
  an address of its own.
\<close>

definition duplicate :: "('v, 'q) Pose \<Rightarrow> ('v, 'q) Pose" where
  "duplicate p = \<lparr>Position = Position p, Rotation = Rotation p, Scale = Scale p\<rparr>"

text \<open>
  The part of PyGLM and of SpatialTransform that \<^verbatim>\<open>Joint\<close> calls. \<open>Pose_new\<close> is \<^verbatim>\<open>Pose()\<close>;
  \<open>Space\<close> and \<open>SpaceInverse\<close> are the properties of these names of \<^verbatim>\<open>Pose\<close> and of
  \<^verbatim>\<open>Transform\<close>, read off a position, a rotation and a scale; \<open>Transform_applyPosition\<close> is
  \<^verbatim>\<open>Transform.applyPosition(position, recursive=False)\<close>, acting on the local properties of a
  transform and of its children.
\<close>

record ('v, 'q, 'm) glm =
  Pose_new :: "('v, 'q) Pose"
  lerp_vec3 :: "'v \<Rightarrow> 'v \<Rightarrow> real \<Rightarrow> 'v"
  lerp_quat :: "'q \<Rightarrow> 'q \<Rightarrow> real \<Rightarrow> 'q"
  quat_mul :: "'q \<Rightarrow> 'q \<Rightarrow> 'q"
  quat_inverse :: "'q \<Rightarrow> 'q"
  vec3_mul :: "'v \<Rightarrow> 'v \<Rightarrow> 'v"
  vec3_div :: "'v \<Rightarrow> 'v \<Rightarrow> 'v"
  Space :: "('v, 'q) Pose \<Rightarrow> 'm"
  SpaceInverse :: "('v, 'q) Pose \<Rightarrow> 'm"
  mat4_mul :: "'m \<Rightarrow> 'm \<Rightarrow> 'm"
  mat4_vec3 :: "'m \<Rightarrow> 'v \<Rightarrow> 'v"
  Transform_applyPosition ::
    "'v option \<Rightarrow> ('v, 'q) Pose \<Rightarrow> ('v, 'q) Pose list \<Rightarrow> ('v, 'q) Pose \<times> ('v, 'q) Pose list"

text \<open>
  A joint: the local properties inherited from \<^verbatim>\<open>Transform\<close> (\<open>J_Position\<close>, \<open>J_Rotation\<close>,
  \<open>J_Scale\<close>), the rest pose, the keyframes, the frame last loaded and the children. The
  hierarchy is a tree, so the reference to the parent is left out; frame ids are Python
  integers. The poses are values here: the methods of the keyframe store put poses into the
  list, take them out and read them, and never assign into one. The methods that do assign
  into a \<^verbatim>\<open>Pose\<close> are modelled on the store of section \<open>Rest pose\<close>.
\<close>

datatype ('v, 'q) Joint =
  Joint (J_Position: 'v) (J_Rotation: 'q) (J_Scale: 'v)
        (RestPose: "('v, 'q) Pose")
        (Keyframes: "(int \<times> ('v, 'q) Pose) list")
        (CurrentFrame: int)
        (Children: "('v, 'q) Joint list")

fun set_Keyframes :: "(int \<times> ('v, 'q) Pose) list \<Rightarrow> ('v, 'q) Joint \<Rightarrow> ('v, 'q) Joint" where
  "set_Keyframes ks (Joint p r s rp _ cf cs) = Joint p r s rp ks cf cs"

text \<open>The exceptions that the modelled methods can raise.\<close>

datatype error = TypeError | ZeroDivisionError | AssertionError

section \<open>The module bisect\<close>

text \<open>
  \<^verbatim>\<open>bisect.bisect_left(a, x)\<close> on a list of integers: the loop of the standard library,
  \<^verbatim>\<open>while lo < hi: mid = (lo + hi) // 2; if a[mid] < x: lo = mid + 1 else: hi = mid\<close>.
\<close>

function bisect_left_loop :: "int list \<Rightarrow> int \<Rightarrow> nat \<Rightarrow> nat \<Rightarrow> nat" where
  "bisect_left_loop a x lo hi =
     (if lo < hi then
        (let mid = (lo + hi) div 2 in
         if a ! mid < x then bisect_left_loop a x (mid + 1) hi
         else bisect_left_loop a x lo mid)
      else lo)"
  by pat_completeness auto
termination
  by (relation "measure (\<lambda>(a, x, lo, hi). hi - lo)") auto

declare bisect_left_loop.simps [simp del]

definition bisect_left :: "int list \<Rightarrow> int \<Rightarrow> nat" where
  "bisect_left a x = bisect_left_loop a x 0 (length a)"

text \<open>
  \<^verbatim>\<open>bisect.insort(a, x)\<close> is \<^verbatim>\<open>insort_right\<close>: a bisection with the test \<^verbatim>\<open>x < a[mid]\<close>, then
  \<^verbatim>\<open>a.insert(lo, x)\<close>. The elements are the tuples \<^verbatim>\<open>(frame, pose)\<close>. Python orders tuples by
  their first differing component: when the frames differ they decide, and when they are
  equal the two \<^verbatim>\<open>Pose\<close> objects are compared, which have no order: \<^verbatim>\<open>TypeError\<close>. (Only
  for one and the same object would Python skip the comparison and answer \<^verbatim>\<open>False\<close>; values
  do not tell one object from its copy, and on an ascending list no tie arises.)
\<close>

definition tuple_lt :: "int \<times> 'p \<Rightarrow> int \<times> 'p \<Rightarrow> error + bool" where
  "tuple_lt x y = (if fst x = fst y then Inl TypeError else Inr (fst x < fst y))"

function bisect_right_loop :: "(int \<times> 'p) list \<Rightarrow> int \<times> 'p \<Rightarrow> nat \<Rightarrow> nat \<Rightarrow> error + nat" where
  "bisect_right_loop a x lo hi =
     (if lo < hi then
        (let mid = (lo + hi) div 2 in
         case tuple_lt x (a ! mid) of
           Inl e \<Rightarrow> Inl e
         | Inr b \<Rightarrow> if b then bisect_right_loop a x lo mid
                    else bisect_right_loop a x (mid + 1) hi)
      else Inr lo)"
  by pat_completeness auto
termination
  by (relation "measure (\<lambda>(a, x, lo, hi). hi - lo)") auto

declare bisect_right_loop.simps [simp del]

definition insort :: "(int \<times> 'p) list \<Rightarrow> int \<times> 'p \<Rightarrow> error + (int \<times> 'p) list" where
  "insort a x =
     (case bisect_right_loop a x 0 (length a) of
        Inl e \<Rightarrow> Inl e
      | Inr lo \<Rightarrow> Inr (take lo a @ [x] @ drop lo a))"

section \<open>The keyframe store\<close>

text \<open>
  \<^verbatim>\<open>Joint.getKeyframeRange\<close>: \<open>(0, 0)\<close> when the joint has no keyframe, before the children
  are looked at; otherwise the first and the last frame id of the list, widened by the
  range of each child when \<open>includeChildren\<close> holds.
\<close>

fun getKeyframeRange :: "bool \<Rightarrow> ('v, 'q) Joint \<Rightarrow> int \<times> int" where
  "getKeyframeRange includeChildren (Joint p r s rp ks cf cs) =
     (if length ks = 0 then (0, 0)
      else
        (let range = (fst (hd ks), fst (last ks)) in
         if includeChildren then
           foldl (\<lambda>range child.
                    (let childRange = getKeyframeRange True child in
                     (min (fst range) (fst childRange), max (snd range) (snd childRange))))
                 range cs
         else range))"

text \<open>
  The resolution of a negative frame number, written twice in the source (lines 76 and 107):
  \<^verbatim>\<open>if frame < 0: frame = max(0, self.getKeyframeRange(includeChildren=False)[1] + 1 - frame)\<close>.
\<close>

definition resolve_frame :: "('v, 'q) Joint \<Rightarrow> int \<Rightarrow> int" where
  "resolve_frame self frame =
     (if frame < 0 then max 0 (snd (getKeyframeRange False self) + 1 - frame) else frame)"

text \<open>
  \<^verbatim>\<open>glm.lerp\<close> on two quaternions asserts that the weight lies between 0 and 1 and raises
  \<^verbatim>\<open>AssertionError\<close> otherwise; on the asserted range its value is the parameter \<open>lerp_quat\<close>.
  On vectors \<^verbatim>\<open>glm.lerp\<close> has no such check.
\<close>

definition glm_lerp_quat :: "('v, 'q, 'm) glm \<Rightarrow> 'q \<Rightarrow> 'q \<Rightarrow> real \<Rightarrow> error + 'q" where
  "glm_lerp_quat g x y a =
     (if 0 \<le> a \<and> a \<le> 1 then Inr (lerp_quat g x y a) else Inl AssertionError)"

text \<open>
  \<^verbatim>\<open>Joint.getKeyframePose\<close>. The weight is Python's true division of two integers, which
  raises \<^verbatim>\<open>ZeroDivisionError\<close> on the divisor 0; it is the exact quotient here, a real, and
  rounding it to a float does not move it across 0 or 1. The arguments of \<^verbatim>\<open>Pose(...)\<close> are
  evaluated in their order: the positions, then the rotations, then the scales.
\<close>

definition getKeyframePose ::
  "('v, 'q, 'm) glm \<Rightarrow> ('v, 'q) Joint \<Rightarrow> int \<Rightarrow> error + ('v, 'q) Pose" where
  "getKeyframePose g self frame0 =
     (if length (Keyframes self) = 0 then Inr (Pose_new g)
      else
        (let frame = resolve_frame self frame0;
             index = bisect_left (map fst (Keyframes self)) frame
         in
         if index = length (Keyframes self) then Inr (duplicate (snd (last (Keyframes self))))
         else if fst (Keyframes self ! index) = frame then
           Inr (duplicate (snd (Keyframes self ! index)))
         else if index = 0 then Inr (duplicate (snd (last (Keyframes self))))
         else
           (let key_before = Keyframes self ! (index - 1);
                key_after = Keyframes self ! index
            in
            if fst key_after = 0 then Inl ZeroDivisionError
            else
              (let weight = real_of_int (fst key_before + frame) / real_of_int (fst key_after);
                   position =
                     lerp_vec3 g (Position (snd key_before)) (Position (snd key_after)) weight
               in
               case glm_lerp_quat g (Rotation (snd key_before)) (Rotation (snd key_after)) weight of
                 Inl e \<Rightarrow> Inl e
               | Inr rotation \<Rightarrow>
                   Inr \<lparr>Position = position, Rotation = rotation,
                        Scale =
                          lerp_vec3 g (Scale (snd key_before)) (Scale (snd key_after)) weight\<rparr>))))"

text \<open>\<^verbatim>\<open>Joint.insertKeyframePose\<close>: the pose is stored as it is given, without a copy.\<close>

definition insertKeyframePose ::
  "int \<Rightarrow> ('v, 'q) Pose \<Rightarrow> ('v, 'q) Joint \<Rightarrow> error + ('v, 'q) Joint" where
  "insertKeyframePose frame0 pose self =
     (let frame = resolve_frame self frame0;
          index = bisect_left (map fst (Keyframes self)) frame
      in
      if index = length (Keyframes self) \<or> fst (Keyframes self ! index) \<noteq> frame then
        (case insort (Keyframes self) (frame, pose) of
           Inl e \<Rightarrow> Inl e
         | Inr ks \<Rightarrow> Inr (set_Keyframes ks self))
      else Inr (set_Keyframes ((Keyframes self)[index := (frame, pose)]) self))"

text \<open>
  \<^verbatim>\<open>Joint.removeKeyframe\<close>: the frame is looked up as it is given; \<^verbatim>\<open>pop(index)\<close> takes the
  entry out; the children follow when \<open>recursive\<close> holds.
\<close>

fun removeKeyframe :: "int \<Rightarrow> bool \<Rightarrow> ('v, 'q) Joint \<Rightarrow> ('v, 'q) Joint" where
  "removeKeyframe frame recursive (Joint p r s rp ks cf cs) =
     (let index = bisect_left (map fst ks) frame;
          ks' = (if index \<noteq> length ks \<and> fst (ks ! index) = frame
                 then take index ks @ drop (Suc index) ks else ks)
      in
      Joint p r s rp ks' cf
        (if recursive then map (removeKeyframe frame True) cs else cs))"

text \<open>
  The invariant of the keyframe list (``This is an ordered list by the frame id''): the
  frame ids ascend strictly, so none occurs twice.
\<close>

definition ascending :: "(int \<times> 'p) list \<Rightarrow> bool" where
  "ascending ks = sorted_wrt (<) (map fst ks)"

text \<open>A call of one of the two methods that change the keyframe list, and a sequence of calls.\<close>

datatype ('v, 'q) keyframe_call =
  InsertKeyframePose int "('v, 'q) Pose"
| RemoveKeyframe int bool

fun call :: "('v, 'q) keyframe_call \<Rightarrow> ('v, 'q) Joint \<Rightarrow> error + ('v, 'q) Joint" where
  "call (InsertKeyframePose frame pose) self = insertKeyframePose frame pose self"
| "call (RemoveKeyframe frame recursive) self = Inr (removeKeyframe frame recursive self)"

fun calls :: "('v, 'q) keyframe_call list \<Rightarrow> ('v, 'q) Joint \<Rightarrow> error + ('v, 'q) Joint" where
  "calls [] self = Inr self"
| "calls (c # cs) self =
     (case call c self of Inl e \<Rightarrow> Inl e | Inr self' \<Rightarrow> calls cs self')"

text \<open>No keyframe of the joint or of a descendant has a negative frame id.\<close>

fun frames_nonnegative :: "('v, 'q) Joint \<Rightarrow> bool" where
  "frames_nonnegative (Joint p r s rp ks cf cs) =
     (list_all (\<lambda>k. 0 \<le> fst k) ks \<and> list_all frames_nonnegative cs)"

text \<open>The frame ids of the whole subtree: the joint's own, then those of each child's subtree.\<close>

fun subtree_frames :: "('v, 'q) Joint \<Rightarrow> int list" where
  "subtree_frames (Joint p r s rp ks cf cs) = map fst ks @ concat (map subtree_frames cs)"

section \<open>The rest pose as an object\<close>

text \<open>
  Whether two names denote one \<^verbatim>\<open>Pose\<close> object is not visible on values. Here the \<^verbatim>\<open>Pose\<close>
  objects live in a store, a list indexed by address, and a joint holds the addresses of its
  rest pose and of the poses of its keyframes. A new object takes the next free address.
\<close>

type_synonym ('v, 'q) store = "('v, 'q) Pose list"

record Joint_object =
  RestPose_at :: nat
  Keyframes_at :: "(int \<times> nat) list"
  CurrentFrame_of :: int

text \<open>\<^verbatim>\<open>Pose()\<close> makes a new object.\<close>

definition Pose_init :: "('v, 'q, 'm) glm \<Rightarrow> ('v, 'q) store \<Rightarrow> ('v, 'q) store \<times> nat" where
  "Pose_init g h = (h @ [Pose_new g], length h)"

text \<open>
  Modelled from the spec: \<^verbatim>\<open>Pose.duplicate\<close> of SpatialTransform, a deep copy: a new object
  with the components of the old one.
\<close>

definition Pose_duplicate :: "('v, 'q) store \<Rightarrow> nat \<Rightarrow> ('v, 'q) store \<times> nat" where
  "Pose_duplicate h a = (h @ [duplicate (h ! a)], length h)"

text \<open>
  \<^verbatim>\<open>Joint.__init__\<close>, the part that is written in \<^verbatim>\<open>Joint\<close>:
  \<^verbatim>\<open>self._RestPose = Pose() if restPose is None else restPose\<close>, and the keyframes likewise.
\<close>

definition Joint_init ::
  "('v, 'q, 'm) glm \<Rightarrow> nat option \<Rightarrow> (int \<times> nat) list option \<Rightarrow> ('v, 'q) store \<Rightarrow>
     ('v, 'q) store \<times> Joint_object" where
  "Joint_init g restPose keyFrames h =
     (let (h', rp) = (case restPose of None \<Rightarrow> Pose_init g h | Some a \<Rightarrow> (h, a))
      in (h', \<lparr>RestPose_at = rp,
               Keyframes_at = (case keyFrames of None \<Rightarrow> [] | Some ks \<Rightarrow> ks),
               CurrentFrame_of = - 1\<rparr>))"

text \<open>The setter of \<^verbatim>\<open>RestPose\<close>: \<^verbatim>\<open>self._RestPose = value.duplicate()\<close>; and the getter.\<close>

definition RestPose_setter ::
  "nat \<Rightarrow> ('v, 'q) store \<Rightarrow> Joint_object \<Rightarrow> ('v, 'q) store \<times> Joint_object" where
  "RestPose_setter v h self =
     (let (h', a) = Pose_duplicate h v in (h', self\<lparr>RestPose_at := a\<rparr>))"

definition RestPose_getter :: "('v, 'q) store \<Rightarrow> Joint_object \<Rightarrow> ('v, 'q) Pose" where
  "RestPose_getter h self = h ! RestPose_at self"

text \<open>A caller changes the position of the \<^verbatim>\<open>Pose\<close> object at an address.\<close>

definition Pose_set_Position :: "nat \<Rightarrow> 'v \<Rightarrow> ('v, 'q) store \<Rightarrow> ('v, 'q) store" where
  "Pose_set_Position a v h = h[a := (h ! a)\<lparr>Position := v\<rparr>]"

section \<open>Rest pose\<close>

text \<open>
  The methods that load and write the rest pose assign into \<^verbatim>\<open>Pose\<close> objects in place
  (\<^verbatim>\<open>key.Position = ...\<close>, \<^verbatim>\<open>self.RestPose.Position = ...\<close>), so they are modelled on the store:
  a \<^verbatim>\<open>Pose\<close> that two joints share, or that is stored at two frames, is one address and is
  written once for each of its uses. A node of the hierarchy holds the local properties that
  the joint inherits from \<^verbatim>\<open>Transform\<close> (position, rotation and scale, as one value), the
  addresses that the joint holds, and the children.
\<close>

datatype ('v, 'q) Joint_node =
  Joint_node (Local: "('v, 'q) Pose") (Object: Joint_object) (Nodes: "('v, 'q) Joint_node list")

text \<open>
  \<^verbatim>\<open>Joint.loadRestPose\<close>: the three components of the rest pose become the local properties.
\<close>

fun loadRestPose :: "('v, 'q) store \<Rightarrow> bool \<Rightarrow> ('v, 'q) Joint_node \<Rightarrow> ('v, 'q) Joint_node" where
  "loadRestPose h recursive (Joint_node l obj cs) =
     Joint_node
       \<lparr>Position = Position (h ! RestPose_at obj),
        Rotation = Rotation (h ! RestPose_at obj),
        Scale = Scale (h ! RestPose_at obj)\<rparr>
       obj (if recursive then map (loadRestPose h True) cs else cs)"

text \<open>
  The argument \<open>keep\<close> is \<^verbatim>\<open>None\<close> or a list of names. \<^verbatim>\<open>if keep:\<close> holds for a list that is not
  empty, and \<^verbatim>\<open>'position' in keep\<close> is only evaluated then.
\<close>

definition truthy :: "string list option \<Rightarrow> bool" where
  "truthy keep = (case keep of None \<Rightarrow> False | Some names \<Rightarrow> names \<noteq> [])"

definition contains :: "string list option \<Rightarrow> string \<Rightarrow> bool" where
  "contains keep name = (case keep of None \<Rightarrow> False | Some names \<Rightarrow> name \<in> set names)"

text \<open>
  The body of the loop of \<^verbatim>\<open>Joint.writeRestPose\<close> for the keyframe whose pose is at address
  \<open>key\<close>: three assignments, each reading the rest pose at \<open>rp\<close> and the key as the store has
  them at that moment. \<open>self\<close> holds the local properties of the joint.
\<close>

definition rebase_key ::
  "('v, 'q, 'm) glm \<Rightarrow> string list option \<Rightarrow> ('v, 'q) Pose \<Rightarrow> nat \<Rightarrow> nat \<Rightarrow>
     ('v, 'q) store \<Rightarrow> ('v, 'q) store" where
  "rebase_key g keep self rp key h =
     (let h1 = (if contains keep ''position''
                then h[key := (h ! key)\<lparr>Position :=
                       mat4_vec3 g (mat4_mul g (SpaceInverse g self) (Space g (h ! rp)))
                         (Position (h ! key))\<rparr>]
                else h);
          h2 = (if contains keep ''rotation''
                then h1[key := (h1 ! key)\<lparr>Rotation :=
                       quat_mul g (quat_mul g (Rotation (h1 ! rp)) (quat_inverse g (Rotation self)))
                         (Rotation (h1 ! key))\<rparr>]
                else h1);
          h3 = (if contains keep ''scale''
                then h2[key := (h2 ! key)\<lparr>Scale :=
                       vec3_mul g (vec3_div g (Scale (h2 ! rp)) (Scale self)) (Scale (h2 ! key))\<rparr>]
                else h2)
      in h3)"

text \<open>
  \<^verbatim>\<open>Joint.writeRestPose\<close>: the loop over the keyframes in their order, then the three
  assignments into the rest pose, then the children, one after the other on the same store.
\<close>

fun writeRestPose ::
  "('v, 'q, 'm) glm \<Rightarrow> bool \<Rightarrow> string list option \<Rightarrow> ('v, 'q) Joint_node \<Rightarrow>
     ('v, 'q) store \<Rightarrow> ('v, 'q) store" where
  "writeRestPose g recursive keep (Joint_node l obj cs) h =
     (let rp = RestPose_at obj;
          h1 = (if truthy keep
                then fold (\<lambda>(frame, key). rebase_key g keep l rp key) (Keyframes_at obj) h
                else h);
          h2 = h1[rp := (h1 ! rp)\<lparr>Position := Position l\<rparr>];
          h3 = h2[rp := (h2 ! rp)\<lparr>Rotation := Rotation l\<rparr>];
          h4 = h3[rp := (h3 ! rp)\<lparr>Scale := Scale l\<rparr>]
      in if recursive then fold (writeRestPose g True keep) cs h4 else h4)"

text \<open>
  \<^verbatim>\<open>Joint.applyPosition(position, recursive=False)\<close> hands over to \<^verbatim>\<open>Transform.applyPosition\<close>,
  which knows the local properties of the transform and of its children and nothing of rest
  poses and keyframes.
\<close>

fun assign_locals ::
  "('v, 'q) Pose list \<Rightarrow> ('v, 'q) Joint_node list \<Rightarrow> ('v, 'q) Joint_node list" where
  "assign_locals (t # ts) (Joint_node l obj cs # ns) = Joint_node t obj cs # assign_locals ts ns"
| "assign_locals _ ns = ns"

definition applyPosition ::
  "('v, 'q, 'm) glm \<Rightarrow> 'v option \<Rightarrow> ('v, 'q) Joint_node \<Rightarrow> ('v, 'q) Joint_node" where
  "applyPosition g position self =
     (let (t, ts) = Transform_applyPosition g position (Local self) (map Local (Nodes self))
      in Joint_node t (Object self) (assign_locals ts (Nodes self)))"

text \<open>The number of joints of a subtree, the measure of the recursion below.\<close>

fun node_count :: "('v, 'q) Joint_node \<Rightarrow> nat" where
  "node_count (Joint_node l obj cs) = Suc (sum_list (map node_count cs))"

text \<open>
  \<^verbatim>\<open>Joint.applyRestposePosition\<close>: the rest pose is loaded on the joint and on its children,
  the position is applied, the rest pose of the joint is written with \<^verbatim>\<open>keep=None\<close> and so is
  that of each child; the children follow, one after the other, when \<open>recursive\<close> holds.
  The result is the hierarchy and the store.
\<close>

function applyRestposePosition ::
  "('v, 'q, 'm) glm \<Rightarrow> 'v option \<Rightarrow> bool \<Rightarrow> ('v, 'q) Joint_node \<Rightarrow> ('v, 'q) store \<Rightarrow>
     ('v, 'q) Joint_node \<times> ('v, 'q) store" where
  "applyRestposePosition g position recursive self h =
     (let self1 = loadRestPose h False self;
          self2 = Joint_node (Local self1) (Object self1) (map (loadRestPose h False) (Nodes self1));
          self3 = applyPosition g position self2;
          h1 = writeRestPose g False None self3 h;
          h2 = fold (writeRestPose g False None) (Nodes self3) h1
      in if recursive
         then
           (let (cs, h3) =
                  fold (\<lambda>child (done, h').
                          (let (child', h'') = applyRestposePosition g position True child h'
                           in (done @ [child'], h'')))
                       (Nodes self3) ([], h2)
            in (Joint_node (Local self3) (Object self3) cs, h3))
         else (self3, h2))"
  by pat_completeness auto
termination
proof (relation "measure (\<lambda>(g, position, recursive, self, h). node_count self)")
  show "wf (measure (\<lambda>(g :: ('v, 'q, 'm) glm, position :: 'v option, recursive :: bool,
                       self :: ('v, 'q) Joint_node, h :: ('v, 'q) store). node_count self))"
    by simp
next
  fix g :: "('v, 'q, 'm) glm" and position :: "'v option" and recursive :: bool
    and self self1 self2 self3 c :: "('v, 'q) Joint_node" and h h' :: "('v, 'q) store"
  assume s: "self1 = loadRestPose h False self"
      "self2 = Joint_node (Local self1) (Object self1) (map (loadRestPose h False) (Nodes self1))"
      "self3 = applyPosition g position self2"
    and c: "c \<in> set (Nodes self3)"
  have count_load:
    "\<And>n :: ('v, 'q) Joint_node. node_count (loadRestPose h False n) = node_count n"
    subgoal for n by (cases n) simp
    done
  have count_assign: "\<And>ts (ns :: ('v, 'q) Joint_node list).
      map node_count (assign_locals ts ns) = map node_count ns"
    subgoal for ts ns by (induction ts ns rule: assign_locals.induct) simp_all
    done
  have c1: "Nodes self1 = Nodes self" unfolding s(1) by (cases self) simp
  have c2: "map node_count (Nodes self2) = map node_count (Nodes self)"
    unfolding s(2) by (simp add: c1 o_def count_load)
  have c3: "map node_count (Nodes self3) = map node_count (Nodes self)"
    unfolding s(3) applyPosition_def by (simp add: count_assign c2 split: prod.splits)
  from c have "node_count c \<in> set (map node_count (Nodes self3))" by simp
  then have "node_count c \<in> set (map node_count (Nodes self))" by (simp only: c3)
  then have "node_count c \<le> sum_list (map node_count (Nodes self))"
    by (simp add: member_le_sum_list)
  then have "node_count c < node_count self" by (cases self) simp
  then show "((g, position, True, c, h'), (g, position, recursive, self, h))
               \<in> measure (\<lambda>(g, position, recursive, self, h). node_count self)"
    by simp
qed

declare applyRestposePosition.simps [simp del]

text \<open>
  The same steps as the specification has them for \<open>recursive = False\<close>: the rest pose of the
  joint is written with \<^verbatim>\<open>keep=['position', 'rotation', 'scale']\<close>.
\<close>

definition applyRestposePosition_spec ::
  "('v, 'q, 'm) glm \<Rightarrow> 'v option \<Rightarrow> ('v, 'q) Joint_node \<Rightarrow> ('v, 'q) store \<Rightarrow>
     ('v, 'q) Joint_node \<times> ('v, 'q) store" where
  "applyRestposePosition_spec g position self h =
     (let self1 = loadRestPose h False self;
          self2 = Joint_node (Local self1) (Object self1) (map (loadRestPose h False) (Nodes self1));
          self3 = applyPosition g position self2;
          h1 = writeRestPose g False (Some [''position'', ''rotation'', ''scale'']) self3 h;
          h2 = fold (writeRestPose g False None) (Nodes self3) h1
      in (self3, h2))"

section \<open>An instance of the math layer\<close>

text \<open>
  The closed statements below need vectors, quaternions and matrices that compute. This
  instance has real components in place of floats: a quaternion is \<open>(w, x, y, z)\<close>, a matrix is
  the three rows of its linear part and its translation, and it acts on a vector as on a
  point. \<open>Space\<close> is translation after rotation after scale. A division by zero gives zero
  here, where a float gives an infinity.
\<close>

type_synonym vec3 = "real \<times> real \<times> real"
type_synonym quat = "real \<times> real \<times> real \<times> real"
type_synonym mat4 = "(vec3 \<times> vec3 \<times> vec3) \<times> vec3"

fun dot :: "vec3 \<Rightarrow> vec3 \<Rightarrow> real" where
  "dot (a, b, c) (x, y, z) = a * x + b * y + c * z"

fun cross :: "vec3 \<Rightarrow> vec3 \<Rightarrow> vec3" where
  "cross (a, b, c) (x, y, z) = (b * z - c * y, c * x - a * z, a * y - b * x)"

fun add3 :: "vec3 \<Rightarrow> vec3 \<Rightarrow> vec3" where
  "add3 (a, b, c) (x, y, z) = (a + x, b + y, c + z)"

fun scale3 :: "real \<Rightarrow> vec3 \<Rightarrow> vec3" where
  "scale3 k (x, y, z) = (k * x, k * y, k * z)"

fun mul3 :: "vec3 \<Rightarrow> vec3 \<Rightarrow> vec3" where
  "mul3 (a, b, c) (x, y, z) = (a * x, b * y, c * z)"

fun div3 :: "vec3 \<Rightarrow> vec3 \<Rightarrow> vec3" where
  "div3 (a, b, c) (x, y, z) = (a / x, b / y, c / z)"

definition lerp3 :: "vec3 \<Rightarrow> vec3 \<Rightarrow> real \<Rightarrow> vec3" where
  "lerp3 x y a = add3 (scale3 (1 - a) x) (scale3 a y)"

fun lerpq :: "quat \<Rightarrow> quat \<Rightarrow> real \<Rightarrow> quat" where
  "lerpq (w1, x1, y1, z1) (w2, x2, y2, z2) a =
     (w1 * (1 - a) + w2 * a, x1 * (1 - a) + x2 * a, y1 * (1 - a) + y2 * a, z1 * (1 - a) + z2 * a)"

fun mulq :: "quat \<Rightarrow> quat \<Rightarrow> quat" where
  "mulq (w1, x1, y1, z1) (w2, x2, y2, z2) =
     (w1 * w2 - x1 * x2 - y1 * y2 - z1 * z2,
      w1 * x2 + x1 * w2 + y1 * z2 - z1 * y2,
      w1 * y2 + y1 * w2 + z1 * x2 - x1 * z2,
      w1 * z2 + z1 * w2 + x1 * y2 - y1 * x2)"

fun inverseq :: "quat \<Rightarrow> quat" where
  "inverseq (w, x, y, z) =
     (let n = w * w + x * x + y * y + z * z in (w / n, - x / n, - y / n, - z / n))"

fun mat3_cast :: "quat \<Rightarrow> vec3 \<times> vec3 \<times> vec3" where
  "mat3_cast (w, x, y, z) =
     ((1 - 2 * (y * y + z * z), 2 * (x * y - w * z), 2 * (x * z + w * y)),
      (2 * (x * y + w * z), 1 - 2 * (x * x + z * z), 2 * (y * z - w * x)),
      (2 * (x * z - w * y), 2 * (y * z + w * x), 1 - 2 * (x * x + y * y)))"

definition Space_of :: "(vec3, quat) Pose \<Rightarrow> mat4" where
  "Space_of p =
     (case mat3_cast (Rotation p) of
        (r1, r2, r3) \<Rightarrow> ((mul3 r1 (Scale p), mul3 r2 (Scale p), mul3 r3 (Scale p)), Position p))"

fun linear3 :: "vec3 \<times> vec3 \<times> vec3 \<Rightarrow> vec3 \<Rightarrow> vec3" where
  "linear3 (a, b, c) v = (dot a v, dot b v, dot c v)"

fun inverse4 :: "mat4 \<Rightarrow> mat4" where
  "inverse4 ((a, b, c), t) =
     (let d = dot a (cross b c);
          u = scale3 (1 / d) (cross b c);
          v = scale3 (1 / d) (cross c a);
          w = scale3 (1 / d) (cross a b);
          rows = ((fst u, fst v, fst w),
                  (fst (snd u), fst (snd v), fst (snd w)),
                  (snd (snd u), snd (snd v), snd (snd w)))
      in (rows, scale3 (- 1) (linear3 rows t)))"

fun mul4 :: "mat4 \<Rightarrow> mat4 \<Rightarrow> mat4" where
  "mul4 ((a, b, c), t) ((a', b', c'), t') =
     (let row = (\<lambda>r. add3 (scale3 (fst r) a') (add3 (scale3 (fst (snd r)) b') (scale3 (snd (snd r)) c')))
      in ((row a, row b, row c), add3 (linear3 (a, b, c) t') t))"

fun mul4_vec3 :: "mat4 \<Rightarrow> vec3 \<Rightarrow> vec3" where
  "mul4_vec3 (rows, t) v = add3 (linear3 rows v) t"

text \<open>
  \<^verbatim>\<open>Transform.applyPosition\<close>: the position is reset to the origin or the given position is
  added, and each child is moved back by the change as its parent's axes see it, so that it
  stays where it is.
\<close>

definition applyPosition_of ::
  "vec3 option \<Rightarrow> (vec3, quat) Pose \<Rightarrow> (vec3, quat) Pose list \<Rightarrow>
     (vec3, quat) Pose \<times> (vec3, quat) Pose list" where
  "applyPosition_of position self children =
     (let change = (case position of None \<Rightarrow> scale3 (- 1) (Position self) | Some v \<Rightarrow> v);
          back = scale3 (- 1) (linear3 (fst (inverse4 (Space_of self))) change)
      in (self\<lparr>Position := add3 (Position self) change\<rparr>,
          map (\<lambda>c. c\<lparr>Position := add3 (Position c) back\<rparr>) children))"

definition glm_real :: "(vec3, quat, mat4) glm" where
  "glm_real =
     \<lparr>Pose_new = \<lparr>Position = (0, 0, 0), Rotation = (1, 0, 0, 0), Scale = (1, 1, 1)\<rparr>,
      lerp_vec3 = lerp3, lerp_quat = lerpq, quat_mul = mulq, quat_inverse = inverseq,
      vec3_mul = mul3, vec3_div = div3, Space = Space_of,
      SpaceInverse = (\<lambda>p. inverse4 (Space_of p)),
      mat4_mul = mul4, mat4_vec3 = mul4_vec3, Transform_applyPosition = applyPosition_of\<rparr>"

section \<open>Concrete joints\<close>

definition pose_a :: "(vec3, quat) Pose" where
  "pose_a = \<lparr>Position = (2, 0, 0), Rotation = (1, 0, 0, 0), Scale = (1, 1, 1)\<rparr>"

definition pose_b :: "(vec3, quat) Pose" where
  "pose_b = \<lparr>Position = (4, 6, 0), Rotation = (0, 1, 0, 0), Scale = (3, 1, 1)\<rparr>"

definition pose_c :: "(vec3, quat) Pose" where
  "pose_c = \<lparr>Position = (0, 0, 8), Rotation = (0, 0, 1, 0), Scale = (1, 1, 5)\<rparr>"

text \<open>A joint without children, at rest at \<open>(1, 0, 0)\<close>, with the given keyframes.\<close>

definition leaf :: "(int \<times> (vec3, quat) Pose) list \<Rightarrow> (vec3, quat) Joint" where
  "leaf ks =
     Joint (0, 0, 0) (1, 0, 0, 0) (1, 1, 1)
       \<lparr>Position = (1, 0, 0), Rotation = (1, 0, 0, 0), Scale = (1, 1, 1)\<rparr> ks (- 1) []"

text \<open>A joint with the given keyframes and one child, a leaf with keyframes of its own.\<close>

definition parent_of ::
  "(int \<times> (vec3, quat) Pose) list \<Rightarrow> (int \<times> (vec3, quat) Pose) list \<Rightarrow> (vec3, quat) Joint" where
  "parent_of ks child_ks =
     Joint (0, 0, 0) (1, 0, 0, 0) (1, 1, 1)
       \<lparr>Position = (0, 0, 0), Rotation = (1, 0, 0, 0), Scale = (1, 1, 1)\<rparr> ks (- 1)
       [leaf child_ks]"

text \<open>
  The same leaf on the store: its rest pose, at rest at \<open>(1, 0, 0)\<close>, is the object at address
  0, and its one keyframe, at frame 0, has the pose \<open>pose_a\<close>, the object at address 1.
\<close>

definition rest_at_1 :: "(vec3, quat) Pose" where
  "rest_at_1 = \<lparr>Position = (1, 0, 0), Rotation = (1, 0, 0, 0), Scale = (1, 1, 1)\<rparr>"

definition leaf_store :: "(vec3, quat) store" where
  "leaf_store = [rest_at_1, pose_a]"

definition leaf_node :: "(vec3, quat) Joint_node" where
  "leaf_node =
     Joint_node \<lparr>Position = (0, 0, 0), Rotation = (1, 0, 0, 0), Scale = (1, 1, 1)\<rparr>
       \<lparr>RestPose_at = 0, Keyframes_at = [(0, 1)], CurrentFrame_of = - 1\<rparr> []"

section \<open>Bisection on ascending lists\<close>

lemma bisect_left_loop_bounds:
  "lo \<le> hi \<Longrightarrow> lo \<le> bisect_left_loop a x lo hi \<and> bisect_left_loop a x lo hi \<le> hi"
proof (induction a x lo hi rule: bisect_left_loop.induct)
  case (1 a x lo hi)
  show ?case
  proof (cases "lo < hi")
    case True
    let ?mid = "(lo + hi) div 2"
    from True have m: "lo \<le> ?mid" "?mid < hi" by auto
    show ?thesis
    proof (cases "a ! ?mid < x")
      case lt: True
      from "1.IH"(1)[OF True refl lt] m
      show ?thesis using True lt by (subst (1 2) bisect_left_loop.simps) (simp add: Let_def)
    next
      case ge: False
      from "1.IH"(2)[OF True refl ge] m
      show ?thesis using True ge by (subst (1 2) bisect_left_loop.simps) (simp add: Let_def)
    qed
  next
    case False
    with "1.prems" show ?thesis by (subst (1 2) bisect_left_loop.simps) simp
  qed
qed

lemma bisect_left_loop_sorted:
  assumes "sorted a" "lo \<le> hi" "hi \<le> length a"
    and "\<forall>i<lo. a ! i < x" and "\<forall>i. hi \<le> i \<and> i < length a \<longrightarrow> x \<le> a ! i"
  shows "(\<forall>i<bisect_left_loop a x lo hi. a ! i < x) \<and>
         (\<forall>i. bisect_left_loop a x lo hi \<le> i \<and> i < length a \<longrightarrow> x \<le> a ! i)"
  using assms
proof (induction a x lo hi rule: bisect_left_loop.induct)
  case (1 a x lo hi)
  show ?case
  proof (cases "lo < hi")
    case True
    let ?mid = "(lo + hi) div 2"
    from True have m: "lo \<le> ?mid" "?mid < hi" by auto
    show ?thesis
    proof (cases "a ! ?mid < x")
      case lt: True
      have below: "\<forall>i<?mid + 1. a ! i < x"
      proof (intro allI impI)
        fix i assume "i < ?mid + 1"
        then have "i \<le> ?mid" by simp
        with \<open>sorted a\<close> m "1.prems"(3) have "a ! i \<le> a ! ?mid"
          by (intro sorted_nth_mono) auto
        with lt show "a ! i < x" by simp
      qed
      have "?mid + 1 \<le> hi" using m by simp
      from "1.IH"(1)[OF True refl lt "1.prems"(1) this "1.prems"(3) below "1.prems"(5)]
      show ?thesis using True lt by (subst (1 2) bisect_left_loop.simps) (simp add: Let_def)
    next
      case ge: False
      have above: "\<forall>i. ?mid \<le> i \<and> i < length a \<longrightarrow> x \<le> a ! i"
      proof (intro allI impI)
        fix i assume "?mid \<le> i \<and> i < length a"
        with \<open>sorted a\<close> have "a ! ?mid \<le> a ! i"
          by (intro sorted_nth_mono) auto
        with ge show "x \<le> a ! i" by simp
      qed
      have "?mid \<le> length a" using m "1.prems"(3) by simp
      from "1.IH"(2)[OF True refl ge "1.prems"(1) m(1) this "1.prems"(4) above]
      show ?thesis using True ge by (subst (1 2) bisect_left_loop.simps) (simp add: Let_def)
    qed
  next
    case False
    with "1.prems" have "lo = hi" by simp
    with "1.prems" show ?thesis by (subst (1 2) bisect_left_loop.simps) simp
  qed
qed

lemma bisect_left_le_length: "bisect_left a x \<le> length a"
  using bisect_left_loop_bounds [of 0 "length a" a x] by (simp add: bisect_left_def)

lemma bisect_left_sorted:
  assumes "sorted a"
  shows "(\<forall>i<bisect_left a x. a ! i < x) \<and>
         (\<forall>i. bisect_left a x \<le> i \<and> i < length a \<longrightarrow> x \<le> a ! i)"
  using bisect_left_loop_sorted [OF assms, of 0 "length a" x] by (simp add: bisect_left_def)

lemma bisect_left_eqI:
  assumes "sorted a" "r \<le> length a"
    and lt: "\<forall>i<r. a ! i < x" and ge: "\<forall>i. r \<le> i \<and> i < length a \<longrightarrow> x \<le> a ! i"
  shows "bisect_left a x = r"
proof (rule ccontr)
  let ?b = "bisect_left a x"
  assume ne: "?b \<noteq> r"
  note s = bisect_left_sorted [OF assms(1), of x]
  show False
  proof (cases "?b < r")
    case True
    with lt have "a ! ?b < x" by simp
    moreover from True assms(2) s have "x \<le> a ! ?b" by simp
    ultimately show False by simp
  next
    case False
    with ne have "r < ?b" by simp
    with s have "a ! r < x" by simp
    moreover from \<open>r < ?b\<close> bisect_left_le_length [of a x] ge have "x \<le> a ! r" by simp
    ultimately show False by simp
  qed
qed

lemma ascending_sorted: "ascending ks \<Longrightarrow> sorted (map fst ks)"
  unfolding ascending_def by (rule sorted_wrt_mono_rel [where P = "(<)"]) auto

lemma ascending_nth_less:
  "ascending ks \<Longrightarrow> i < j \<Longrightarrow> j < length ks \<Longrightarrow> fst (ks ! i) < fst (ks ! j)"
  unfolding ascending_def using sorted_wrt_nth_less [of "(<)" "map fst ks" i j] by simp

lemma ascending_nth_le:
  "ascending ks \<Longrightarrow> i \<le> j \<Longrightarrow> j < length ks \<Longrightarrow> fst (ks ! i) \<le> fst (ks ! j)"
  using ascending_nth_less [of ks i j] by (cases "i = j") auto

lemma bisect_left_at:
  assumes "ascending ks" "k < length ks"
  shows "bisect_left (map fst ks) (fst (ks ! k)) = k"
proof (rule bisect_left_eqI)
  show "sorted (map fst ks)" by (rule ascending_sorted [OF assms(1)])
  show "k \<le> length (map fst ks)" using assms(2) by simp
  show "\<forall>i<k. map fst ks ! i < fst (ks ! k)"
    using ascending_nth_less [OF assms(1) _ assms(2)] assms(2) by simp
  show "\<forall>i. k \<le> i \<and> i < length (map fst ks) \<longrightarrow> fst (ks ! k) \<le> map fst ks ! i"
    using ascending_nth_le [OF assms(1)] by simp
qed


lemma bisect_left_before_first:
  assumes "ascending ks" "ks \<noteq> []" "f \<le> fst (hd ks)"
  shows "bisect_left (map fst ks) f = 0"
proof (rule bisect_left_eqI)
  show "sorted (map fst ks)" by (rule ascending_sorted [OF assms(1)])
  show "\<forall>j. 0 \<le> j \<and> j < length (map fst ks) \<longrightarrow> f \<le> map fst ks ! j"
  proof (intro allI impI)
    fix j assume j: "0 \<le> j \<and> j < length (map fst ks)"
    then have "fst (ks ! 0) \<le> fst (ks ! j)"
      using ascending_nth_le [OF assms(1), of 0 j] by simp
    with assms(2,3) j show "f \<le> map fst ks ! j" by (simp add: hd_conv_nth)
  qed
qed simp_all

lemma bisect_left_after_last:
  assumes "ascending ks" "ks \<noteq> [] \<longrightarrow> fst (last ks) < f"
  shows "bisect_left (map fst ks) f = length ks"
proof -
  have "bisect_left (map fst ks) f = length (map fst ks)"
  proof (rule bisect_left_eqI)
    show "sorted (map fst ks)" by (rule ascending_sorted [OF assms(1)])
    show "\<forall>j<length (map fst ks). map fst ks ! j < f"
    proof (intro allI impI)
      fix j assume j: "j < length (map fst ks)"
      then have ne: "ks \<noteq> []" by auto
      from j have "fst (ks ! j) \<le> fst (ks ! (length ks - 1))"
        using ascending_nth_le [OF assms(1), of j "length ks - 1"] by simp
      with assms(2) ne j show "map fst ks ! j < f" by (simp add: last_conv_nth)
    qed
  qed simp_all
  then show ?thesis by simp
qed

lemma bisect_right_loop_no_tie:
  assumes "hi \<le> length a" "f \<notin> fst ` set a"
  shows "bisect_right_loop a (f, p) lo hi = Inr (bisect_left_loop (map fst a) f lo hi)"
  using assms
proof (induction "map fst a" f lo hi rule: bisect_left_loop.induct)
  case (1 f lo hi)
  show ?case
  proof (cases "lo < hi")
    case True
    let ?mid = "(lo + hi) div 2"
    from True "1.prems" have m: "?mid < length a" "?mid \<le> length a" "?mid + 1 \<le> length a" by auto
    then have "a ! ?mid \<in> set a" by simp
    with "1.prems" have ne: "fst (a ! ?mid) \<noteq> f" by auto
    show ?thesis
    proof (cases "fst (a ! ?mid) < f")
      case lt: True
      with m have c: "map fst a ! ?mid < f" by simp
      have "bisect_right_loop a (f, p) (?mid + 1) hi = Inr (bisect_left_loop (map fst a) f (?mid + 1) hi)"
        using "1.hyps"(1) [OF True refl c] "1.prems" by simp
      then show ?thesis using True lt ne m
        by (subst bisect_right_loop.simps, subst bisect_left_loop.simps)
           (simp add: Let_def tuple_lt_def)
    next
      case ge: False
      with m have c: "\<not> map fst a ! ?mid < f" by simp
      have "bisect_right_loop a (f, p) lo ?mid = Inr (bisect_left_loop (map fst a) f lo ?mid)"
        using "1.hyps"(2) [OF True refl c] "1.prems" m by simp
      then show ?thesis using True ge ne m
        by (subst bisect_right_loop.simps, subst bisect_left_loop.simps)
           (auto simp add: Let_def tuple_lt_def)
    qed
  next
    case False
    then show ?thesis
      by (subst bisect_right_loop.simps, subst bisect_left_loop.simps) simp
  qed
qed

lemma insort_no_tie:
  assumes "f \<notin> fst ` set a"
  shows "insort a (f, p) =
           Inr (take (bisect_left (map fst a) f) a @ [(f, p)] @ drop (bisect_left (map fst a) f) a)"
  using bisect_right_loop_no_tie [OF _ assms, of "length a" p 0]
  by (simp add: insort_def bisect_left_def)

lemma ascending_insert:
  assumes "ascending ks" "f \<notin> fst ` set ks"
  shows "ascending (take (bisect_left (map fst ks) f) ks @ [(f, p)] @ drop (bisect_left (map fst ks) f) ks)"
proof -
  let ?r = "bisect_left (map fst ks) f"
  note s = bisect_left_sorted [OF ascending_sorted [OF assms(1)], of f]
  have r: "?r \<le> length ks" using bisect_left_le_length [of "map fst ks" f] by simp
  have lo: "\<forall>x \<in> set (take ?r ks). fst x < f"
  proof
    fix x assume "x \<in> set (take ?r ks)"
    then obtain i where i: "i < ?r" "i < length ks" "x = ks ! i"
      by (auto simp: in_set_conv_nth)
    from s i(1) have "map fst ks ! i < f" by blast
    with i show "fst x < f" by simp
  qed
  have hi: "\<forall>x \<in> set (drop ?r ks). f < fst x"
  proof
    fix x assume x: "x \<in> set (drop ?r ks)"
    then obtain i where i: "i < length ks - ?r" "x = ks ! (?r + i)"
      by (auto simp: in_set_conv_nth)
    from s i(1) have "f \<le> map fst ks ! (?r + i)" by simp
    with i have "f \<le> fst x" by simp
    moreover from x have "x \<in> set ks" by (rule in_set_dropD)
    with assms(2) have "fst x \<noteq> f" by auto
    ultimately show "f < fst x" by simp
  qed
  have "sorted_wrt (<) (map fst (take ?r ks))" "sorted_wrt (<) (map fst (drop ?r ks))"
    using assms(1) unfolding ascending_def
    by (simp_all add: take_map [symmetric] drop_map [symmetric] sorted_wrt_take sorted_wrt_drop)
  moreover have "\<forall>x \<in> set (take ?r ks). \<forall>y \<in> set (drop ?r ks). fst x < fst y"
    using lo hi by fastforce
  ultimately show ?thesis
    using lo hi unfolding ascending_def by (auto simp: sorted_wrt_append)
qed

lemma ascending_update:
  assumes "ascending ks" "k < length ks" "fst (ks ! k) = f"
  shows "ascending (ks[k := (f, p)])"
proof -
  have "map fst (ks[k := (f, p)]) = map fst ks"
    using assms(2,3) by (simp add: map_update list_update_same_conv)
  with assms(1) show ?thesis by (simp add: ascending_def)
qed

lemma ascending_pop: "ascending ks \<Longrightarrow> ascending (take k ks @ drop (Suc k) ks)"
proof -
  assume a: "ascending ks"
  have "sorted_wrt (<) (take k (map fst ks) @ drop (Suc k) (map fst ks))"
  proof (cases "k < length ks")
    case True
    from True have "map fst ks = take k (map fst ks) @ (map fst ks ! k) # drop (Suc k) (map fst ks)"
      by (intro id_take_nth_drop) simp
    with a have "sorted_wrt (<) (take k (map fst ks) @ (map fst ks ! k) # drop (Suc k) (map fst ks))"
      unfolding ascending_def by metis
    then show ?thesis by (auto simp: sorted_wrt_append)
  next
    case False
    with a show ?thesis by (simp add: ascending_def)
  qed
  then show ?thesis by (simp add: ascending_def take_map drop_map)
qed

section \<open>The keyframe store: insertion, removal and lookup\<close>

lemma Keyframes_set_Keyframes: "Keyframes (set_Keyframes ks j) = ks"
  by (cases j) simp

lemma getKeyframeRange_own:
  "getKeyframeRange False j =
     (if Keyframes j = [] then (0, 0) else (fst (hd (Keyframes j)), fst (last (Keyframes j))))"
  by (cases j) simp

lemma resolve_frame_nonneg: "0 \<le> f \<Longrightarrow> resolve_frame j f = f"
  by (simp add: resolve_frame_def)

lemma resolve_frame_negative:
  "f < 0 \<Longrightarrow> Keyframes j \<noteq> [] \<Longrightarrow>
     resolve_frame j f = max 0 (fst (last (Keyframes j)) + 1 - f)"
  by (simp add: resolve_frame_def getKeyframeRange_own)

lemma resolve_frame_ge0: "0 \<le> resolve_frame j f"
  by (simp add: resolve_frame_def)

lemma resolve_frame_idem: "resolve_frame j' (resolve_frame j f) = resolve_frame j f"
  by (simp add: resolve_frame_nonneg resolve_frame_ge0)

lemma resolve_frame_after_last:
  "f < 0 \<Longrightarrow> Keyframes j \<noteq> [] \<Longrightarrow> fst (last (Keyframes j)) < resolve_frame j f"
  by (simp add: resolve_frame_negative)

lemma Keyframes_removeKeyframe:
  "Keyframes (removeKeyframe f recursive j) =
     (let index = bisect_left (map fst (Keyframes j)) f in
      if index \<noteq> length (Keyframes j) \<and> fst (Keyframes j ! index) = f
      then take index (Keyframes j) @ drop (Suc index) (Keyframes j) else Keyframes j)"
  by (cases j) (simp add: Let_def)

lemma insertKeyframePose_new:
  assumes "resolve_frame j f \<notin> fst ` set (Keyframes j)"
  shows "insertKeyframePose f p j =
           Inr (set_Keyframes
                  (take (bisect_left (map fst (Keyframes j)) (resolve_frame j f)) (Keyframes j)
                   @ [(resolve_frame j f, p)]
                   @ drop (bisect_left (map fst (Keyframes j)) (resolve_frame j f)) (Keyframes j)) j)"
proof -
  let ?ks = "Keyframes j" and ?f = "resolve_frame j f"
  let ?r = "bisect_left (map fst ?ks) ?f"
  have "?r = length ?ks \<or> fst (?ks ! ?r) \<noteq> ?f"
  proof (cases "?r < length ?ks")
    case True
    then have "?ks ! ?r \<in> set ?ks" by simp
    with assms show ?thesis by force
  next
    case False
    with bisect_left_le_length [of "map fst ?ks" ?f] show ?thesis by simp
  qed
  then show ?thesis
    by (simp add: insertKeyframePose_def insort_no_tie [OF assms] Let_def)
qed

lemma insertKeyframePose_existing:
  assumes "ascending (Keyframes j)" "k < length (Keyframes j)"
    and "fst (Keyframes j ! k) = resolve_frame j f"
  shows "insertKeyframePose f p j =
           Inr (set_Keyframes ((Keyframes j)[k := (resolve_frame j f, p)]) j)"
proof -
  have "bisect_left (map fst (Keyframes j)) (resolve_frame j f) = k"
    using bisect_left_at [OF assms(1,2)] assms(3) by simp
  then show ?thesis
    using assms(2,3) by (simp add: insertKeyframePose_def Let_def)
qed

text \<open>What an insertion does to an ascending list, in both branches.\<close>

lemma insertKeyframePose_ascending:
  assumes "ascending (Keyframes j)"
  shows "\<exists>j' k. insertKeyframePose f p j = Inr j' \<and> ascending (Keyframes j') \<and>
           k < length (Keyframes j') \<and> Keyframes j' ! k = (resolve_frame j f, p)"
proof (cases "resolve_frame j f \<in> fst ` set (Keyframes j)")
  case True
  then obtain k where k: "k < length (Keyframes j)" "fst (Keyframes j ! k) = resolve_frame j f"
    by (auto simp: in_set_conv_nth)
  show ?thesis
    using insertKeyframePose_existing [OF assms k, of p] ascending_update [OF assms k, of p] k
    by (auto simp: Keyframes_set_Keyframes intro!: exI [of _ k])
next
  case False
  let ?r = "bisect_left (map fst (Keyframes j)) (resolve_frame j f)"
  have "?r \<le> length (Keyframes j)"
    using bisect_left_le_length [of "map fst (Keyframes j)"] by simp
  then show ?thesis
    using insertKeyframePose_new [OF False, of p] ascending_insert [OF assms False, of p]
    by (auto simp: Keyframes_set_Keyframes nth_append intro!: exI [of _ ?r])
qed

lemma getKeyframePose_at:
  assumes "ascending (Keyframes j)" "k < length (Keyframes j)"
    and "fst (Keyframes j ! k) = resolve_frame j f"
  shows "getKeyframePose g j f = Inr (snd (Keyframes j ! k))"
proof -
  have "bisect_left (map fst (Keyframes j)) (resolve_frame j f) = k"
    using bisect_left_at [OF assms(1,2)] assms(3) by simp
  then show ?thesis
    using assms(2,3) by (auto simp add: getKeyframePose_def Let_def duplicate_def)
qed

lemma getKeyframePose_after_last:
  assumes "ascending (Keyframes j)" "Keyframes j \<noteq> []"
    and "fst (last (Keyframes j)) < resolve_frame j f"
  shows "getKeyframePose g j f = Inr (snd (last (Keyframes j)))"
  using bisect_left_after_last [OF assms(1), of "resolve_frame j f"] assms(2,3)
  by (simp add: getKeyframePose_def Let_def duplicate_def)

section \<open>Sequences of calls, negative frames, copies\<close>

lemma call_ascending:
  assumes "ascending (Keyframes j)"
  shows "\<exists>j'. call c j = Inr j' \<and> ascending (Keyframes j')"
proof (cases c)
  case (InsertKeyframePose f p)
  with insertKeyframePose_ascending [OF assms, of f p] show ?thesis by auto
next
  case (RemoveKeyframe f recursive)
  then show ?thesis
    using ascending_pop [OF assms] assms by (simp add: Keyframes_removeKeyframe Let_def)
qed

lemma bisect_left_loop_none_below:
  "hi \<le> length a \<Longrightarrow> \<forall>y \<in> set a. \<not> y < x \<Longrightarrow> bisect_left_loop a x lo hi = lo"
proof (induction a x lo hi rule: bisect_left_loop.induct)
  case (1 a x lo hi)
  show ?case
  proof (cases "lo < hi")
    case True
    let ?mid = "(lo + hi) div 2"
    from True "1.prems" have m: "?mid < length a" by auto
    with "1.prems" have ge: "\<not> a ! ?mid < x" by simp
    from "1.IH"(2) [OF True refl ge] m "1.prems"
    have "bisect_left_loop a x lo ?mid = lo" by simp
    then show ?thesis using True ge by (subst bisect_left_loop.simps) (simp add: Let_def)
  next
    case False
    then show ?thesis by (subst bisect_left_loop.simps) simp
  qed
qed

text \<open>The setter stores a copy: a later change of the source does not reach the rest pose.\<close>

lemma RestPose_setter_copies:
  "a < length h \<Longrightarrow>
   (case RestPose_setter a h j of
      (h', j') \<Rightarrow> RestPose_getter (Pose_set_Position a v h') j') = h ! a"
  by (simp add: RestPose_setter_def Pose_duplicate_def RestPose_getter_def Pose_set_Position_def
        duplicate_def nth_append)

section \<open>The keyframe store at a resolved frame\<close>

text \<open>The last keyframe of an ascending list has the largest frame id.\<close>

lemma ascending_le_last:
  assumes "ascending ks" "x \<in> set ks"
  shows "fst x \<le> fst (last ks)"
proof -
  from assms(2) obtain i where i: "i < length ks" "x = ks ! i"
    by (auto simp: in_set_conv_nth)
  then have "fst x \<le> fst (ks ! (length ks - 1))"
    using ascending_nth_le [OF assms(1), of i "length ks - 1"] by simp
  moreover from i have "ks \<noteq> []" by auto
  ultimately show ?thesis by (simp add: last_conv_nth)
qed

text \<open>
  What \<^verbatim>\<open>getKeyframePose\<close> and \<^verbatim>\<open>insertKeyframePose\<close> do once the frame is resolved to \<open>r\<close>
  and the bisection has answered \<open>index\<close>.
\<close>

lemma getKeyframePose_unfold:
  assumes "Keyframes j \<noteq> []" "resolve_frame j f = r"
    and "bisect_left (map fst (Keyframes j)) r = index"
  shows "getKeyframePose g j f =
           (if index = length (Keyframes j) then Inr (snd (last (Keyframes j)))
            else if fst (Keyframes j ! index) = r then Inr (snd (Keyframes j ! index))
            else if index = 0 then Inr (snd (last (Keyframes j)))
            else if fst (Keyframes j ! index) = 0 then Inl ZeroDivisionError
            else
              (let weight = real_of_int (fst (Keyframes j ! (index - 1)) + r)
                              / real_of_int (fst (Keyframes j ! index))
               in if 0 \<le> weight \<and> weight \<le> 1
                  then Inr \<lparr>Position = lerp_vec3 g (Position (snd (Keyframes j ! (index - 1))))
                                         (Position (snd (Keyframes j ! index))) weight,
                            Rotation = lerp_quat g (Rotation (snd (Keyframes j ! (index - 1))))
                                         (Rotation (snd (Keyframes j ! index))) weight,
                            Scale = lerp_vec3 g (Scale (snd (Keyframes j ! (index - 1))))
                                      (Scale (snd (Keyframes j ! index))) weight\<rparr>
                  else Inl AssertionError))"
  unfolding getKeyframePose_def assms(2) assms(3) Let_def using assms(1)
  by (simp add: duplicate_def glm_lerp_quat_def)

lemma insertKeyframePose_unfold:
  assumes "resolve_frame j f = r" "bisect_left (map fst (Keyframes j)) r = index"
  shows "insertKeyframePose f p j =
           (if index = length (Keyframes j) \<or> fst (Keyframes j ! index) \<noteq> r
            then (case insort (Keyframes j) (r, p) of
                    Inl e \<Rightarrow> Inl e
                  | Inr ks' \<Rightarrow> Inr (set_Keyframes ks' j))
            else Inr (set_Keyframes ((Keyframes j)[index := (r, p)]) j))"
  unfolding insertKeyframePose_def assms Let_def by simp

section \<open>The claims\<close>

text \<open>
  Claim C1 at a leaf. The joint is at rest at \<open>(1, 0, 0)\<close> and has one keyframe, whose pose
  has the position \<open>(2, 0, 0)\<close>, so it is animated to \<open>(3, 0, 0)\<close>.
  \<^verbatim>\<open>applyRestposePosition(None, recursive=False)\<close> resets the rest position to the origin and
  leaves the keyframe as it is, so the joint is now animated to \<open>(2, 0, 0)\<close>. With
  \<^verbatim>\<open>keep=['position', 'rotation', 'scale']\<close>, as the claim has it, the keyframe moves to
  \<open>(3, 0, 0)\<close>, and so it does with \<^verbatim>\<open>keep=['position']\<close>, which the docstring announces (``Updates
  its keyframes position ONLY'') and the two sibling methods pass.
\<close>

theorem applyRestposePosition_not_rebased:
  "snd (applyRestposePosition glm_real None False leaf_node leaf_store) =
     [rest_at_1\<lparr>Position := (0, 0, 0)\<rparr>, pose_a] \<and>
   snd (applyRestposePosition_spec glm_real None leaf_node leaf_store) =
     [rest_at_1\<lparr>Position := (0, 0, 0)\<rparr>, pose_a\<lparr>Position := (3, 0, 0)\<rparr>] \<and>
   writeRestPose glm_real False (Some [''position''])
     (applyPosition glm_real None (loadRestPose leaf_store False leaf_node)) leaf_store =
     [rest_at_1\<lparr>Position := (0, 0, 0)\<rparr>, pose_a\<lparr>Position := (3, 0, 0)\<rparr>] \<and>
   mul4_vec3 (Space_of (leaf_store ! 0)) (Position (leaf_store ! 1)) = (3, 0, 0) \<and>
   mul4_vec3 (Space_of (snd (applyRestposePosition glm_real None False leaf_node leaf_store) ! 0))
     (Position (snd (applyRestposePosition glm_real None False leaf_node leaf_store) ! 1)) = (2, 0, 0)"
  by (simp add: applyRestposePosition.simps applyRestposePosition_spec_def leaf_node_def
        leaf_store_def rest_at_1_def pose_a_def applyPosition_def glm_real_def applyPosition_of_def
        Space_of_def truthy_def contains_def rebase_key_def Let_def)

text \<open>
  Claim C2 at two joints. A joint without keyframes whose child has keyframes at 3 and 7
  answers \<open>(0, 0)\<close>, and a joint with keyframes at 3 and 7 whose child has none answers
  \<open>(0, 7)\<close>, where the frame ids of the subtree are 3 and 7 both times.
\<close>

theorem getKeyframeRange_not_subtree_range:
  "getKeyframeRange True (parent_of [] [(3, pose_a), (7, pose_b)]) = (0, 0) \<and>
   subtree_frames (parent_of [] [(3, pose_a), (7, pose_b)]) = [3, 7] \<and>
   getKeyframeRange True (parent_of [(3, pose_a), (7, pose_b)] []) = (0, 7) \<and>
   subtree_frames (parent_of [(3, pose_a), (7, pose_b)] []) = [3, 7]"
  by (simp add: parent_of_def leaf_def)

text \<open>
  Claim C3, as the code has it. On an ascending keyframe list, for a frame \<open>f \<ge> 0\<close> that
  the list does not hold, \<^verbatim>\<open>insertKeyframePose(f, p)\<close> returns and \<^verbatim>\<open>removeKeyframe(f)\<close>
  after it leaves the keyframe list as it was before the insertion.
\<close>

theorem insert_then_remove_restores:
  assumes "ascending (Keyframes j)" "0 \<le> f" "f \<notin> fst ` set (Keyframes j)"
  shows "\<exists>j'. insertKeyframePose f p j = Inr j' \<and>
               Keyframes (removeKeyframe f recursive j') = Keyframes j"
proof -
  let ?ks = "Keyframes j"
  let ?r = "bisect_left (map fst ?ks) f"
  let ?ks' = "take ?r ?ks @ [(f, p)] @ drop ?r ?ks"
  have rf: "resolve_frame j f = f" using assms(2) by (rule resolve_frame_nonneg)
  have r: "?r \<le> length ?ks" using bisect_left_le_length [of "map fst ?ks" f] by simp
  have ins: "insertKeyframePose f p j = Inr (set_Keyframes ?ks' j)"
    using insertKeyframePose_new [of j f p] assms(3) rf by simp
  have asc: "ascending ?ks'" using ascending_insert [OF assms(1,3)] .
  have at: "?r < length ?ks'" "?ks' ! ?r = (f, p)" using r by (simp_all add: nth_append)
  have "bisect_left (map fst ?ks') (fst (?ks' ! ?r)) = ?r"
    using asc at(1) by (rule bisect_left_at)
  then have idx: "bisect_left (map fst ?ks') f = ?r" using at(2) by simp
  have "take ?r ?ks' @ drop (Suc ?r) ?ks' = ?ks" using r by simp
  then have "Keyframes (removeKeyframe f recursive (set_Keyframes ?ks' j)) = ?ks"
    using idx at unfolding Keyframes_removeKeyframe Keyframes_set_Keyframes Let_def by simp
  with ins show ?thesis by blast
qed

theorem insert_then_remove_restores_witness:
  "ascending (Keyframes (leaf [(3, pose_a), (7, pose_b)])) \<and> (0::int) \<le> 5 \<and>
   5 \<notin> fst ` set (Keyframes (leaf [(3, pose_a), (7, pose_b)])) \<and>
   (\<exists>j'. insertKeyframePose 5 pose_c (leaf [(3, pose_a), (7, pose_b)]) = Inr j' \<and>
         Keyframes (removeKeyframe 5 False j') = Keyframes (leaf [(3, pose_a), (7, pose_b)]))"
proof -
  have h1: "ascending (Keyframes (leaf [(3, pose_a), (7, pose_b)]))"
    by (simp add: leaf_def ascending_def)
  have h2: "(0::int) \<le> 5" by simp
  have h3: "5 \<notin> fst ` set (Keyframes (leaf [(3, pose_a), (7, pose_b)]))"
    by (simp add: leaf_def)
  show ?thesis
    using h1 h2 h3 insert_then_remove_restores [OF h1 h2 h3, of pose_c False] by simp
qed

text \<open>
  Claim C3 as stated fails where the frame is already stored: the insertion overwrites the
  entry at frame 5 and the removal takes it out, so a list of one keyframe ends up empty.
\<close>

theorem insert_then_remove_loses_keyframe:
  "insertKeyframePose 5 pose_b (leaf [(5, pose_a)]) = Inr (leaf [(5, pose_b)]) \<and>
   Keyframes (removeKeyframe 5 False (leaf [(5, pose_b)])) = [] \<and>
   Keyframes (removeKeyframe 5 False (leaf [(5, pose_b)])) \<noteq> Keyframes (leaf [(5, pose_a)])"
  by (simp add: insertKeyframePose_def leaf_def resolve_frame_def bisect_left_def
        bisect_left_loop.simps Let_def)

text \<open>
  Claim C4. On an ascending keyframe list, for every frame \<open>f\<close>, negative or not, and every
  pose \<open>p\<close>, \<^verbatim>\<open>insertKeyframePose(f, p)\<close> returns and \<^verbatim>\<open>getKeyframePose(f)\<close> after it returns
  the position, rotation and scale of \<open>p\<close>.
\<close>

theorem insert_then_get_returns_pose:
  assumes "ascending (Keyframes j)"
  shows "\<exists>j'. insertKeyframePose f p j = Inr j' \<and> getKeyframePose g j' f = Inr p"
proof -
  obtain j' k where j': "insertKeyframePose f p j = Inr j'" "ascending (Keyframes j')"
      "k < length (Keyframes j')" "Keyframes j' ! k = (resolve_frame j f, p)"
    using insertKeyframePose_ascending [OF assms, of f p] by blast
  have "getKeyframePose g j' f = Inr p"
  proof (cases "0 \<le> f")
    case True
    then have "fst (Keyframes j' ! k) = resolve_frame j' f"
      using j'(4) by (simp add: resolve_frame_nonneg)
    from getKeyframePose_at [OF j'(2,3) this, of g] j'(4) show ?thesis by simp
  next
    case False
    then have neg: "f < 0" by simp
    let ?f = "resolve_frame j f"
    have above: "Keyframes j \<noteq> [] \<longrightarrow> fst (last (Keyframes j)) < ?f"
      using resolve_frame_after_last [OF neg] by blast
    then have notin: "?f \<notin> fst ` set (Keyframes j)"
    proof -
      { fix x assume x: "x \<in> set (Keyframes j)"
        then obtain i where i: "i < length (Keyframes j)" "x = Keyframes j ! i"
          by (auto simp: in_set_conv_nth)
        then have "fst x \<le> fst (Keyframes j ! (length (Keyframes j) - 1))"
          using ascending_nth_le [OF assms, of i "length (Keyframes j) - 1"] by simp
        with above x have "fst x < ?f" by (auto simp: last_conv_nth) }
      then have "\<forall>x \<in> set (Keyframes j). fst x \<noteq> ?f" by fastforce
      then show ?thesis by (auto simp: image_iff)
    qed
    have "bisect_left (map fst (Keyframes j)) ?f = length (Keyframes j)"
      using bisect_left_after_last [OF assms above] .
    with insertKeyframePose_new [OF notin, of p] j'(1)
    have ks': "Keyframes j' = Keyframes j @ [(?f, p)]"
      by (auto simp: Keyframes_set_Keyframes)
    then have "fst (last (Keyframes j')) < resolve_frame j' f"
      using resolve_frame_after_last [OF neg, of j'] by simp
    from getKeyframePose_after_last [OF j'(2) _ this, of g] ks' show ?thesis by simp
  qed
  with j'(1) show ?thesis by blast
qed

theorem insert_then_get_returns_pose_witness:
  "ascending (Keyframes (leaf [(3, pose_a), (7, pose_b)])) \<and>
   (\<exists>j'. insertKeyframePose 5 pose_c (leaf [(3, pose_a), (7, pose_b)]) = Inr j' \<and>
         getKeyframePose glm_real j' 5 = Inr pose_c) \<and>
   (\<exists>j'. insertKeyframePose (- 2) pose_c (leaf [(3, pose_a), (7, pose_b)]) = Inr j' \<and>
         getKeyframePose glm_real j' (- 2) = Inr pose_c)"
proof -
  have h: "ascending (Keyframes (leaf [(3, pose_a), (7, pose_b)]))"
    by (simp add: leaf_def ascending_def)
  show ?thesis
    using h insert_then_get_returns_pose [OF h, of 5 pose_c glm_real]
      insert_then_get_returns_pose [OF h, of "- 2" pose_c glm_real]
    by simp
qed

text \<open>
  Claim C5. On an ascending keyframe list that is not empty, a resolved frame below the
  first stored frame id makes \<^verbatim>\<open>getKeyframePose\<close> return the pose of the last keyframe, as
  it does past the end of the list.
\<close>

theorem getKeyframePose_before_first_is_last:
  assumes "ascending (Keyframes j)" "Keyframes j \<noteq> []"
    and "resolve_frame j f < fst (hd (Keyframes j))"
  shows "getKeyframePose g j f = Inr (snd (last (Keyframes j)))"
proof -
  have "bisect_left (map fst (Keyframes j)) (resolve_frame j f) = 0"
    using bisect_left_before_first [OF assms(1,2), of "resolve_frame j f"] assms(3) by simp
  moreover have "fst (Keyframes j ! 0) \<noteq> resolve_frame j f"
    using assms(2,3) by (simp add: hd_conv_nth)
  ultimately show ?thesis
    using assms(2) by (simp add: getKeyframePose_def Let_def duplicate_def)
qed

theorem getKeyframePose_before_first_is_last_witness:
  "ascending (Keyframes (leaf [(3, pose_a), (7, pose_b)])) \<and>
   Keyframes (leaf [(3, pose_a), (7, pose_b)]) \<noteq> [] \<and>
   resolve_frame (leaf [(3, pose_a), (7, pose_b)]) 1
     < fst (hd (Keyframes (leaf [(3, pose_a), (7, pose_b)]))) \<and>
   getKeyframePose glm_real (leaf [(3, pose_a), (7, pose_b)]) 1 = Inr pose_b"
proof -
  have h1: "ascending (Keyframes (leaf [(3, pose_a), (7, pose_b)]))"
    by (simp add: leaf_def ascending_def)
  have h2: "Keyframes (leaf [(3, pose_a), (7, pose_b)]) \<noteq> []"
    by (simp add: leaf_def)
  have h3: "resolve_frame (leaf [(3, pose_a), (7, pose_b)]) 1
              < fst (hd (Keyframes (leaf [(3, pose_a), (7, pose_b)])))"
    by (simp add: leaf_def resolve_frame_def)
  have "snd (last (Keyframes (leaf [(3, pose_a), (7, pose_b)]))) = pose_b"
    by (simp add: leaf_def)
  then show ?thesis
    using h1 h2 h3 getKeyframePose_before_first_is_last [OF h1 h2 h3, of glm_real] by simp
qed




text \<open>
  Claim C7. For a joint with keyframes and a negative frame \<open>f\<close>, the frame is resolved to
  \<open>r = max 0 (lastFrame + 1 - f)\<close>, where \<open>lastFrame\<close> is the frame id of the last keyframe of
  the joint itself, and it is at \<open>r\<close> that the keyframe list is bisected:
  \<^verbatim>\<open>insertKeyframePose\<close> stores \<open>(r, p)\<close>, in place where the bisection finds \<open>r\<close> and through
  \<^verbatim>\<open>insort\<close> otherwise, and \<^verbatim>\<open>getKeyframePose\<close> takes each of its branches by \<open>r\<close>. On an
  ascending list \<open>r\<close> lies past the last frame id, so the insertion appends \<open>(r, p)\<close> and the
  lookup returns the pose of the last keyframe.
\<close>

theorem negative_frame_resolved:
  assumes "Keyframes j \<noteq> []" "f < 0"
  shows
    "(let ks = Keyframes j;
          r = max 0 (fst (last ks) + 1 - f);
          index = bisect_left (map fst ks) r
      in resolve_frame j f = r \<and>
         insertKeyframePose f p j =
           (if index = length ks \<or> fst (ks ! index) \<noteq> r
            then (case insort ks (r, p) of
                    Inl e \<Rightarrow> Inl e
                  | Inr ks' \<Rightarrow> Inr (set_Keyframes ks' j))
            else Inr (set_Keyframes (ks[index := (r, p)]) j)) \<and>
         getKeyframePose g j f =
           (if index = length ks then Inr (snd (last ks))
            else if fst (ks ! index) = r then Inr (snd (ks ! index))
            else if index = 0 then Inr (snd (last ks))
            else if fst (ks ! index) = 0 then Inl ZeroDivisionError
            else
              (let weight = real_of_int (fst (ks ! (index - 1)) + r) / real_of_int (fst (ks ! index))
               in if 0 \<le> weight \<and> weight \<le> 1
                  then Inr \<lparr>Position = lerp_vec3 g (Position (snd (ks ! (index - 1))))
                                         (Position (snd (ks ! index))) weight,
                            Rotation = lerp_quat g (Rotation (snd (ks ! (index - 1))))
                                         (Rotation (snd (ks ! index))) weight,
                            Scale = lerp_vec3 g (Scale (snd (ks ! (index - 1))))
                                      (Scale (snd (ks ! index))) weight\<rparr>
                  else Inl AssertionError)) \<and>
         (ascending ks \<longrightarrow>
            fst (last ks) < r \<and>
            insertKeyframePose f p j = Inr (set_Keyframes (ks @ [(r, p)]) j) \<and>
            getKeyframePose g j f = Inr (snd (last ks))))"
proof -
  define r where "r = max 0 (fst (last (Keyframes j)) + 1 - f)"
  define index where "index = bisect_left (map fst (Keyframes j)) r"
  have res: "resolve_frame j f = r"
    using assms by (simp add: resolve_frame_negative r_def)
  have idx: "bisect_left (map fst (Keyframes j)) r = index"
    by (simp add: index_def)
  note ins = insertKeyframePose_unfold [OF res idx, of p]
  note get = getKeyframePose_unfold [OF assms(1) res idx, of g]
  have above: "fst (last (Keyframes j)) < r"
    using assms(2) by (simp add: r_def)
  have asc: "insertKeyframePose f p j = Inr (set_Keyframes (Keyframes j @ [(r, p)]) j) \<and>
             getKeyframePose g j f = Inr (snd (last (Keyframes j)))"
    if a: "ascending (Keyframes j)"
  proof -
    have "\<forall>x \<in> set (Keyframes j). fst x \<noteq> r"
    proof
      fix x assume "x \<in> set (Keyframes j)"
      from ascending_le_last [OF a this] above show "fst x \<noteq> r" by simp
    qed
    then have notin: "resolve_frame j f \<notin> fst ` set (Keyframes j)"
      unfolding res by (auto simp: image_iff)
    have end_idx: "bisect_left (map fst (Keyframes j)) r = length (Keyframes j)"
      using bisect_left_after_last [OF a, of r] above by simp
    have "insertKeyframePose f p j = Inr (set_Keyframes (Keyframes j @ [(r, p)]) j)"
      using insertKeyframePose_new [OF notin, of p] unfolding res end_idx by simp
    moreover have "getKeyframePose g j f = Inr (snd (last (Keyframes j)))"
      using getKeyframePose_after_last [OF a assms(1), of f g] above unfolding res by simp
    ultimately show ?thesis by simp
  qed
  have "resolve_frame j f = r \<and>
         insertKeyframePose f p j =
           (if index = length (Keyframes j) \<or> fst (Keyframes j ! index) \<noteq> r
            then (case insort (Keyframes j) (r, p) of
                    Inl e \<Rightarrow> Inl e
                  | Inr ks' \<Rightarrow> Inr (set_Keyframes ks' j))
            else Inr (set_Keyframes ((Keyframes j)[index := (r, p)]) j)) \<and>
         getKeyframePose g j f =
           (if index = length (Keyframes j) then Inr (snd (last (Keyframes j)))
            else if fst (Keyframes j ! index) = r then Inr (snd (Keyframes j ! index))
            else if index = 0 then Inr (snd (last (Keyframes j)))
            else if fst (Keyframes j ! index) = 0 then Inl ZeroDivisionError
            else
              (let weight = real_of_int (fst (Keyframes j ! (index - 1)) + r)
                              / real_of_int (fst (Keyframes j ! index))
               in if 0 \<le> weight \<and> weight \<le> 1
                  then Inr \<lparr>Position = lerp_vec3 g (Position (snd (Keyframes j ! (index - 1))))
                                         (Position (snd (Keyframes j ! index))) weight,
                            Rotation = lerp_quat g (Rotation (snd (Keyframes j ! (index - 1))))
                                         (Rotation (snd (Keyframes j ! index))) weight,
                            Scale = lerp_vec3 g (Scale (snd (Keyframes j ! (index - 1))))
                                      (Scale (snd (Keyframes j ! index))) weight\<rparr>
                  else Inl AssertionError)) \<and>
         (ascending (Keyframes j) \<longrightarrow>
            fst (last (Keyframes j)) < r \<and>
            insertKeyframePose f p j = Inr (set_Keyframes (Keyframes j @ [(r, p)]) j) \<and>
            getKeyframePose g j f = Inr (snd (last (Keyframes j))))"
    using res ins get above asc by blast
  then show ?thesis
    unfolding Let_def index_def r_def .
qed

theorem negative_frame_resolved_witness:
  "Keyframes (leaf [(3, pose_a), (7, pose_b)]) \<noteq> [] \<and> (- 2 :: int) < 0 \<and>
   ascending (Keyframes (leaf [(3, pose_a), (7, pose_b)])) \<and>
   resolve_frame (leaf [(3, pose_a), (7, pose_b)]) (- 2) = 10 \<and>
   insertKeyframePose (- 2) pose_c (leaf [(3, pose_a), (7, pose_b)]) =
     Inr (leaf [(3, pose_a), (7, pose_b), (10, pose_c)]) \<and>
   getKeyframePose glm_real (leaf [(3, pose_a), (7, pose_b)]) (- 2) = Inr pose_b"
proof -
  let ?j = "leaf [(3, pose_a), (7, pose_b)]"
  have h1: "Keyframes ?j \<noteq> []"
    by (simp add: leaf_def)
  have h2: "(- 2 :: int) < 0" by simp
  have h3: "ascending (Keyframes ?j)"
    by (simp add: leaf_def ascending_def)
  have k: "Keyframes ?j = [(3, pose_a), (7, pose_b)]"
    by (simp add: leaf_def)
  have s: "set_Keyframes [(3, pose_a), (7, pose_b), (10, pose_c)] ?j =
             leaf [(3, pose_a), (7, pose_b), (10, pose_c)]"
    by (simp add: leaf_def)
  have i: "bisect_left [3, 7] 10 = Suc (Suc 0)"
    by (simp add: bisect_left_def bisect_left_loop.simps)
  show ?thesis
    using h1 h2 h3 negative_frame_resolved [OF h1 h2, of pose_c glm_real]
    by (simp add: k s i Let_def insort_def bisect_right_loop.simps tuple_lt_def)
qed

text \<open>
  Claim C8. A joint whose keyframe list ascends strictly by frame id, so without a frame id
  twice, goes through any sequence of \<^verbatim>\<open>insertKeyframePose\<close> and \<^verbatim>\<open>removeKeyframe\<close> calls
  without an exception, and its keyframe list ascends strictly afterwards.
\<close>

theorem calls_keep_ascending:
  assumes "ascending (Keyframes j)"
  shows "\<exists>j'. calls cs j = Inr j' \<and> ascending (Keyframes j')"
  using assms
proof (induction cs arbitrary: j)
  case Nil
  then show ?case by simp
next
  case (Cons c cs)
  from call_ascending [OF Cons.prems, of c]
  obtain j1 where j1: "call c j = Inr j1" "ascending (Keyframes j1)" by blast
  from Cons.IH [OF j1(2)] j1(1) show ?case by simp
qed

theorem calls_keep_ascending_witness:
  "ascending (Keyframes (leaf [(3, pose_a), (7, pose_b)])) \<and>
   (\<exists>j'. calls [InsertKeyframePose 5 pose_c, RemoveKeyframe 3 False,
                 InsertKeyframePose (- 1) pose_a, InsertKeyframePose 7 pose_c]
            (leaf [(3, pose_a), (7, pose_b)]) = Inr j' \<and>
         ascending (Keyframes j'))"
proof -
  have h: "ascending (Keyframes (leaf [(3, pose_a), (7, pose_b)]))"
    by (simp add: leaf_def ascending_def)
  show ?thesis
    using h calls_keep_ascending [OF h,
        of "[InsertKeyframePose 5 pose_c, RemoveKeyframe 3 False,
             InsertKeyframePose (- 1) pose_a, InsertKeyframePose 7 pose_c]"]
    by blast
qed

text \<open>
  Claim C9 at the constructor. A joint is made with the \<^verbatim>\<open>Pose\<close> object at address 0 as its
  \<^verbatim>\<open>restPose\<close> argument; its rest pose is \<open>pose_a\<close>. The caller then sets the position of
  that object to \<open>(9, 9, 9)\<close>, and the rest pose of the joint has this position. A joint
  that is given the same object through the setter of \<^verbatim>\<open>RestPose\<close> keeps \<open>pose_a\<close>.
\<close>

theorem constructor_shares_rest_pose:
  "(case Joint_init glm_real (Some 0) None [pose_a] of
      (h, j) \<Rightarrow> (RestPose_getter h j, RestPose_getter (Pose_set_Position 0 (9, 9, 9) h) j)) =
   (pose_a, pose_a\<lparr>Position := (9, 9, 9)\<rparr>) \<and>
   (case Joint_init glm_real None None [pose_a] of
      (h, j) \<Rightarrow>
        (case RestPose_setter 0 h j of
           (h', j') \<Rightarrow>
             (RestPose_getter h' j', RestPose_getter (Pose_set_Position 0 (9, 9, 9) h') j'))) =
   (pose_a, pose_a)"
  by (simp add: Joint_init_def Pose_init_def RestPose_setter_def Pose_duplicate_def
        RestPose_getter_def Pose_set_Position_def duplicate_def pose_a_def)

text \<open>
  Claim C10. \<^verbatim>\<open>removeKeyframe\<close> looks the frame up as it is given: where no keyframe of the
  subtree has a negative frame id, \<^verbatim>\<open>removeKeyframe(f, recursive=True)\<close> with \<open>f < 0\<close> returns
  the joint as it was, every keyframe list of the subtree included.
\<close>

theorem removeKeyframe_negative_unchanged:
  assumes "frames_nonnegative j" "f < 0"
  shows "removeKeyframe f True j = j"
  using assms(1)
proof (induction j)
  case (Joint p r s rp ks cf cs)
  have nn: "\<forall>k \<in> set ks. 0 \<le> fst k" using Joint.prems by (simp add: list_all_iff)
  then have "\<forall>y \<in> set (map fst ks). \<not> y < f" using assms(2) by auto
  then have idx: "bisect_left (map fst ks) f = 0"
    using bisect_left_loop_none_below [of "length (map fst ks)" "map fst ks" f 0]
    by (simp add: bisect_left_def)
  have keep: "\<not> (0 \<noteq> length ks \<and> fst (ks ! 0) = f)"
    using nn assms(2) by (cases ks) auto
  have "map (removeKeyframe f True) cs = cs"
  proof (rule map_idI)
    fix c assume c: "c \<in> set cs"
    with Joint.prems have "frames_nonnegative c" by (simp add: list_all_iff)
    with Joint.IH c show "removeKeyframe f True c = c" by simp
  qed
  with idx keep show ?case by (auto simp add: Let_def)
qed

theorem removeKeyframe_negative_unchanged_witness:
  "frames_nonnegative (parent_of [(0, pose_a), (2, pose_b)] [(1, pose_c)]) \<and> (- 1 :: int) < 0 \<and>
   removeKeyframe (- 1) True (parent_of [(0, pose_a), (2, pose_b)] [(1, pose_c)]) =
     parent_of [(0, pose_a), (2, pose_b)] [(1, pose_c)]"
proof -
  have h1: "frames_nonnegative (parent_of [(0, pose_a), (2, pose_b)] [(1, pose_c)])"
    by (simp add: parent_of_def leaf_def)
  have h2: "(- 1 :: int) < 0" by simp
  show ?thesis
    using h1 h2 removeKeyframe_negative_unchanged [OF h1 h2] by simp
qed

end
